theory Spec2Isabelle
  imports Main "HOL-Library.Word"
begin

unbundle bit_operations_syntax

section \<open>Machine types\<close>

text \<open>
  \<^verbatim>\<open>uint8_t\<close> and \<^verbatim>\<open>uint64_t\<close> are words of 8 and 64 bits: \<open>+\<close> and \<open>*\<close> wrap
  modulo \<open>2 ^ 8\<close> and \<open>2 ^ 64\<close>.  A \<^verbatim>\<open>const uint8_t *\<close> argument is a \<open>u8 list option\<close>:
  \<open>None\<close> is the null pointer, \<open>Some bs\<close> points to a buffer whose accessible bytes are
  \<open>bs\<close>.  A \<^verbatim>\<open>size_t\<close> length or index is a \<open>nat\<close>: the loops only count \<open>i\<close> upwards
  while \<open>i < len\<close>, so the increment never wraps.
\<close>

type_synonym u8 = "8 word"
type_synonym u64 = "64 word"

section \<open>otoshi\_crypto\_helper.c\<close>

subsection \<open>otoshi\_fnv1a64\<close>

definition offset :: u64 where
  "offset = 1469598103934665603"

definition prime :: u64 where
  "prime = 1099511628211"

text \<open>
  The \<^verbatim>\<open>for\<close> loop of lines 17 to 20, with its state \<open>i\<close> and \<open>hash\<close>.  Reading
  \<^verbatim>\<open>data[i]\<close> beyond the buffer is undefined behaviour in C: the model returns \<open>None\<close>.
\<close>

function fnv1a64_loop :: "u8 list \<Rightarrow> nat \<Rightarrow> nat \<Rightarrow> u64 \<Rightarrow> u64 option" where
  "fnv1a64_loop data len i hash =
     (if i < len then
        (if i < length data
         then fnv1a64_loop data len (i + 1) ((hash XOR ucast (data ! i)) * prime)
         else None)
      else Some hash)"
  by pat_completeness auto
termination
  by (relation "measure (\<lambda>(data, len, i, hash). len - i)") auto

declare fnv1a64_loop.simps [simp del]

definition otoshi_fnv1a64 :: "u8 list option \<Rightarrow> nat \<Rightarrow> u64 option" where
  "otoshi_fnv1a64 data len =
     (let hash = offset in
      case data of
        None \<Rightarrow> Some hash
      | Some bytes \<Rightarrow> fnv1a64_loop bytes len 0 hash)"

subsection \<open>otoshi\_consttime\_eq\<close>

text \<open>
  The comparator is modelled together with the byte reads it performs: every evaluation of
  \<^verbatim>\<open>left[i]\<close> and \<^verbatim>\<open>right[i]\<close> is appended to a log.  C does not fix the order of
  the two reads of one iteration; the log puts the left one first.
\<close>

datatype byte_read = Read_left nat | Read_right nat

text \<open>
  The \<^verbatim>\<open>for\<close> loop of lines 29 to 31, with its state \<open>i\<close> and \<open>diff\<close>.  The operands
  of \<^verbatim>\<open>^\<close> and \<^verbatim>\<open>|=\<close> are promoted to \<^verbatim>\<open>int\<close> and the result is cast back to
  \<^verbatim>\<open>uint8_t\<close>, which is the bitwise operation on 8-bit words.  A read beyond either
  buffer is undefined behaviour: \<open>None\<close>.
\<close>

function consttime_loop ::
  "u8 list \<Rightarrow> u8 list \<Rightarrow> nat \<Rightarrow> nat \<Rightarrow> u8 \<Rightarrow> byte_read list \<Rightarrow> (u8 \<times> byte_read list) option" where
  "consttime_loop left right len i diff reads =
     (if i < len then
        (if i < length left \<and> i < length right
         then consttime_loop left right len (i + 1) (diff OR (left ! i XOR right ! i))
                (reads @ [Read_left i, Read_right i])
         else None)
      else Some (diff, reads))"
  by pat_completeness auto
termination
  by (relation "measure (\<lambda>(left, right, len, i, diff, reads). len - i)") auto

declare consttime_loop.simps [simp del]

text \<open>The function with its log of reads; the \<^verbatim>\<open>int\<close> it returns is the first component.\<close>

definition otoshi_consttime_eq_run ::
  "u8 list option \<Rightarrow> u8 list option \<Rightarrow> nat \<Rightarrow> (int \<times> byte_read list) option" where
  "otoshi_consttime_eq_run left right len =
     (case left of
        None \<Rightarrow> Some (0, [])
      | Some l \<Rightarrow>
          (case right of
             None \<Rightarrow> Some (0, [])
           | Some r \<Rightarrow>
               (case consttime_loop l r len 0 0 [] of
                  None \<Rightarrow> None
                | Some (diff, reads) \<Rightarrow> Some (if diff = 0 then 1 else 0, reads))))"

definition otoshi_consttime_eq :: "u8 list option \<Rightarrow> u8 list option \<Rightarrow> nat \<Rightarrow> int option" where
  "otoshi_consttime_eq left right len = map_option fst (otoshi_consttime_eq_run left right len)"

text \<open>The reads of a comparison of \<open>len\<close> bytes that visits every position once, in order.\<close>

definition all_positions :: "nat \<Rightarrow> byte_read list" where
  "all_positions len = concat (map (\<lambda>i. [Read_left i, Read_right i]) [0..<len])"

text \<open>The running OR of the per-position XOR differences over the first \<open>len\<close> positions.\<close>

definition or_of_xors :: "u8 list \<Rightarrow> u8 list \<Rightarrow> nat \<Rightarrow> u8" where
  "or_of_xors l r len = foldl (OR) 0 (map (\<lambda>i. l ! i XOR r ! i) [0..<len])"

section \<open>otoshi\_fs\_scanner.cpp\<close>

subsection \<open>The environment: files, streams and directory entries\<close>

text \<open>
  The scanner reads the file system through \<^verbatim>\<open>std::filesystem\<close> and \<^verbatim>\<open>std::ifstream\<close>.
  Their answers are the environment \<open>fs_env\<close> of the model.  It covers the outcomes the
  source tests for: a file that cannot be opened (\<^verbatim>\<open>is_open\<close>), a stream that stops being
  \<^verbatim>\<open>good\<close> at the end of the file or on a read error, an entry that is not a regular
  file, and an entry whose size cannot be determined (\<^verbatim>\<open>ec\<close>).

  \<^verbatim>\<open>fs::exists\<close>, \<^verbatim>\<open>fs::is_directory\<close>, \<^verbatim>\<open>entry.is_regular_file()\<close> and the
  iterator are called in their throwing forms: when the status of a path cannot be read
  (for an error other than the path not being there) they throw
  \<^verbatim>\<open>filesystem_error\<close>.  The source has no handler, so the exception leaves
  \<^verbatim>\<open>main\<close> and the process is terminated.  In the environment such a call answers
  \<open>None\<close>.

  A file has its bytes, finitely many, and, when the device fails, the offset at which
  reading fails: the bytes before the offset are delivered and the read that needs the
  next one reports an error.
\<close>

type_synonym path = string

record file_node =
  content :: "u8 list"
  read_fault :: "nat option"

text \<open>
  A directory entry as the loop of \<^verbatim>\<open>main\<close> sees it: \<^verbatim>\<open>entry.path()\<close>;
  \<^verbatim>\<open>entry.is_regular_file()\<close>, which is \<open>None\<close> when the call throws; and
  \<^verbatim>\<open>entry.file_size(ec)\<close>, which is \<open>None\<close> when \<^verbatim>\<open>ec\<close> is set and the size as a
  \<^verbatim>\<open>uintmax_t\<close> otherwise.
\<close>

record directory_entry =
  entry_path :: path
  entry_is_regular_file :: "bool option"
  entry_file_size :: "u64 option"

text \<open>
  How the traversal ends after the entries it yields: the iterator reaches the end, or
  its constructor or an increment throws.
\<close>

datatype walk_end = Reaches_end | Throws_error

text \<open>
  \<open>fs_open p\<close> is \<open>None\<close> when the file at \<open>p\<close> cannot be opened.
  \<open>fs_exists p\<close> and \<open>fs_is_directory p\<close> are \<open>None\<close> when the call throws.
  \<open>fs_recursive_directory_iterator root\<close> is the sequence of entries that
  \<^verbatim>\<open>recursive_directory_iterator(root, skip_permission_denied)\<close> yields, in its order,
  and how the traversal ends after them.
  \<open>uninitialised\<close> is what the stack holds where \<^verbatim>\<open>buffer\<close> is allocated.
\<close>

record fs_env =
  fs_open :: "path \<Rightarrow> file_node option"
  fs_exists :: "path \<Rightarrow> bool option"
  fs_is_directory :: "path \<Rightarrow> bool option"
  fs_recursive_directory_iterator :: "path \<Rightarrow> directory_entry list \<times> walk_end"
  uninitialised :: "nat \<Rightarrow> u8"

text \<open>
  An input file stream: the bytes the device still delivers, whether an error follows
  them instead of the end of the file, the state bits, and the count of the last read.
\<close>

record ifstream =
  is_open :: bool
  unread :: "u8 list"
  error_follows :: bool
  eofbit :: bool
  failbit :: bool
  badbit :: bool
  gcount :: nat

definition good :: "ifstream \<Rightarrow> bool" where
  "good s = (\<not> eofbit s \<and> \<not> failbit s \<and> \<not> badbit s)"

text \<open>The constructor \<^verbatim>\<open>std::ifstream in(file_path, std::ios::binary)\<close>.\<close>

definition ifstream_open :: "fs_env \<Rightarrow> path \<Rightarrow> ifstream" where
  "ifstream_open env file_path =
     (case fs_open env file_path of
        None \<Rightarrow>
          \<lparr>is_open = False, unread = [], error_follows = False,
           eofbit = False, failbit = True, badbit = False, gcount = 0\<rparr>
      | Some f \<Rightarrow>
          \<lparr>is_open = True,
           unread = (case read_fault f of None \<Rightarrow> content f | Some k \<Rightarrow> take k (content f)),
           error_follows = (case read_fault f of None \<Rightarrow> False | Some k \<Rightarrow> True),
           eofbit = False, failbit = False, badbit = False, gcount = 0\<rparr>)"

text \<open>
  \<^verbatim>\<open>in.read(buffer, n)\<close>: on a stream that is not good it sets \<^verbatim>\<open>failbit\<close> and
  extracts nothing.  Otherwise it stores up to \<open>n\<close> bytes at the start of the buffer and
  leaves the rest of the buffer as it was; when fewer than \<open>n\<close> bytes are left it sets
  \<^verbatim>\<open>eofbit\<close> and \<^verbatim>\<open>failbit\<close> at the end of the file, or \<^verbatim>\<open>badbit\<close> on a read error.
  \<^verbatim>\<open>gcount\<close> is the number of bytes stored; after a read error it is 0, as in
  libstdc++, where the error leaves the count of the call unset: the bytes that the
  failing call got before the error are not counted.
\<close>

definition istream_read :: "ifstream \<Rightarrow> u8 list \<Rightarrow> nat \<Rightarrow> ifstream \<times> u8 list" where
  "istream_read s buffer n =
     (if \<not> good s then (s\<lparr>failbit := True, gcount := 0\<rparr>, buffer)
      else
        (let got = take n (unread s);
             buffer' = got @ drop (length got) buffer
         in if length got = n then (s\<lparr>unread := drop n (unread s), gcount := n\<rparr>, buffer')
            else if error_follows s
            then (s\<lparr>unread := [], badbit := True, gcount := 0\<rparr>, buffer')
            else (s\<lparr>unread := [], eofbit := True, failbit := True, gcount := length got\<rparr>, buffer')))"

subsection \<open>fnv1a64\_file\<close>

definition kOffset :: u64 where
  "kOffset = 1469598103934665603"

definition kPrime :: u64 where
  "kPrime = 1099511628211"

text \<open>\<^verbatim>\<open>char buffer[8192]\<close>, not initialised.\<close>

definition buffer_size :: nat where
  "buffer_size = 8192"

definition char_buffer :: "fs_env \<Rightarrow> u8 list" where
  "char_buffer env = map (uninitialised env) [0..<buffer_size]"

text \<open>
  The inner \<^verbatim>\<open>for\<close> loop of lines 22 to 25 over the first \<open>bytes\<close> positions of the
  buffer.  \<^verbatim>\<open>static_cast<uint8_t>(buffer[i])\<close> is the byte, widened to 64 bits by \<^verbatim>\<open>^=\<close>.
  A read stores at most \<^verbatim>\<open>sizeof(buffer)\<close> bytes, so \<open>i\<close> stays inside the buffer.
\<close>

function hash_bytes :: "u8 list \<Rightarrow> nat \<Rightarrow> nat \<Rightarrow> u64 \<Rightarrow> u64" where
  "hash_bytes buffer bytes i hash =
     (if i < bytes
      then hash_bytes buffer bytes (i + 1) ((hash XOR ucast (buffer ! i)) * kPrime)
      else hash)"
  by pat_completeness auto
termination
  by (relation "measure (\<lambda>(buffer, bytes, i, hash). bytes - i)") auto

declare hash_bytes.simps [simp del]

text \<open>The \<^verbatim>\<open>while (in.good())\<close> loop of lines 19 to 26.\<close>

function read_loop :: "ifstream \<Rightarrow> u8 list \<Rightarrow> u64 \<Rightarrow> u64" where
  "read_loop s buffer hash =
     (if good s then
        read_loop (fst (istream_read s buffer buffer_size))
          (snd (istream_read s buffer buffer_size))
          (hash_bytes (snd (istream_read s buffer buffer_size))
             (gcount (fst (istream_read s buffer buffer_size))) 0 hash)
      else hash)"
  by pat_completeness auto
termination
proof (relation "measure (\<lambda>(s, buffer, hash). length (unread s) + (if good s then 1 else 0))")
  show "wf (measure (\<lambda>(s, buffer, hash). length (unread s) + (if good s then 1 else 0)))"
    by simp
next
  fix s :: ifstream and buffer :: "u8 list" and hash :: u64
  assume "good s"
  then show "((fst (istream_read s buffer buffer_size), snd (istream_read s buffer buffer_size),
                hash_bytes (snd (istream_read s buffer buffer_size))
                  (gcount (fst (istream_read s buffer buffer_size))) 0 hash),
              s, buffer, hash)
             \<in> measure (\<lambda>(s, buffer, hash). length (unread s) + (if good s then 1 else 0))"
    by (auto simp: istream_read_def Let_def good_def buffer_size_def)
qed

declare read_loop.simps [simp del]

definition fnv1a64_file :: "fs_env \<Rightarrow> path \<Rightarrow> u64" where
  "fnv1a64_file env file_path =
     (let hash = kOffset;
          s = ifstream_open env file_path
      in if \<not> is_open s then hash
         else read_loop s (char_buffer env) hash)"

subsection \<open>main\<close>

text \<open>
  On POSIX a path is the byte string it was made from: \<^verbatim>\<open>fs::u8path\<close>,
  \<^verbatim>\<open>path::u8string\<close> and \<^verbatim>\<open>path::string\<close> convert nothing.
\<close>

definition u8path :: "string \<Rightarrow> path" where
  "u8path source = source"

definition u8string :: "path \<Rightarrow> string" where
  "u8string p = p"

definition path_string :: "path \<Rightarrow> string" where
  "path_string p = p"

text \<open>
  \<^verbatim>\<open>operator<<\<close> for a \<^verbatim>\<open>uint64_t\<close>: decimal by default, lower-case hexadecimal after
  \<^verbatim>\<open>std::hex\<close>, in both cases without leading zeros.  \<^verbatim>\<open>std::setw(w)\<close> with
  \<^verbatim>\<open>std::setfill(c)\<close> pads the next item on the left to \<open>w\<close> characters.
\<close>

definition digit_char :: "nat \<Rightarrow> char" where
  "digit_char d = ''0123456789abcdef'' ! d"

fun ostream_dec :: "nat \<Rightarrow> string" where
  "ostream_dec n =
     (if n < 10 then [digit_char n] else ostream_dec (n div 10) @ [digit_char (n mod 10)])"

fun ostream_hex :: "nat \<Rightarrow> string" where
  "ostream_hex n =
     (if n < 16 then [digit_char n] else ostream_hex (n div 16) @ [digit_char (n mod 16)])"

declare ostream_dec.simps [simp del]
declare ostream_hex.simps [simp del]

definition setw_setfill :: "nat \<Rightarrow> char \<Rightarrow> string \<Rightarrow> string" where
  "setw_setfill w c item = replicate (w - length item) c @ item"

definition newline :: char where
  "newline = CHR 0x0A"

text \<open>The three accumulators of lines 42 to 44.\<close>

record scan_state =
  file_count :: u64
  total_bytes :: u64
  aggregate :: u64

definition scan_init :: scan_state where
  "scan_init = \<lparr>file_count = 0, total_bytes = 0, aggregate = 1469598103934665603\<rparr>"

text \<open>
  The range-based \<^verbatim>\<open>for\<close> loop of lines 47 to 58 over the entries of the iterator.
  The result is \<open>None\<close> when \<^verbatim>\<open>entry.is_regular_file()\<close> or the iterator throws: the
  exception leaves the loop and the state is lost.
\<close>

fun scan_loop ::
  "fs_env \<Rightarrow> directory_entry list \<Rightarrow> walk_end \<Rightarrow> scan_state \<Rightarrow> scan_state option" where
  "scan_loop env [] ending st =
     (case ending of Reaches_end \<Rightarrow> Some st | Throws_error \<Rightarrow> None)"
| "scan_loop env (entry # entries) ending st =
     (case entry_is_regular_file entry of
        None \<Rightarrow> None
      | Some regular \<Rightarrow>
          if \<not> regular then scan_loop env entries ending st
          else
            (case entry_file_size entry of
               None \<Rightarrow> scan_loop env entries ending st
             | Some sz \<Rightarrow>
                 (let file_hash = fnv1a64_file env (entry_path entry)
                  in scan_loop env entries ending
                       \<lparr>file_count = file_count st + 1,
                        total_bytes = total_bytes st + sz,
                        aggregate = (aggregate st XOR file_hash) * kPrime\<rparr>)))"

text \<open>The text assembled in lines 60 to 66.\<close>

definition render :: "path \<Rightarrow> scan_state \<Rightarrow> string" where
  \<open>render root st =
     ''{'' @ ''"root":"'' @ u8string root @ ''",''
       @ ''"file_count":'' @ ostream_dec (unat (file_count st)) @ '',''
       @ ''"total_bytes":'' @ ostream_dec (unat (total_bytes st)) @ '',''
       @ ''"aggregate_hash":"0x'' @ setw_setfill 16 CHR ''0'' (ostream_hex (unat (aggregate st)))
       @ ''"}''\<close>

text \<open>
  What a run of the process leaves.  When \<^verbatim>\<open>main\<close> returns: its exit code and what it
  wrote to the two streams.  When an exception leaves \<^verbatim>\<open>main\<close>: the process is
  terminated by \<^verbatim>\<open>std::terminate\<close> (it is killed by \<^verbatim>\<open>SIGABRT\<close> and has no exit code
  of its own); \<^verbatim>\<open>main\<close> has written nothing by then, since it writes only right before
  a \<^verbatim>\<open>return\<close>.
\<close>

record process_result =
  exit_code :: int
  cout :: string
  cerr :: string

datatype process_end = Exited process_result | Aborted

text \<open>
  \<^verbatim>\<open>argc\<close> is the length of \<open>argv\<close>; \<open>argv ! 0\<close> is the program name.  In
  \<^verbatim>\<open>!fs::exists(root) || !fs::is_directory(root)\<close> the second call is made only when
  the first has answered \<^verbatim>\<open>true\<close>.
\<close>

definition main :: "fs_env \<Rightarrow> string list \<Rightarrow> process_end" where
  "main env argv =
     (if length argv < 2
      then Exited \<lparr>exit_code = 1, cout = [],
                   cerr = ''usage: otoshi_fs_scanner <root-dir>'' @ [newline]\<rparr>
      else
        (let root = u8path (argv ! 1);
             invalid_root = Exited \<lparr>exit_code = 1, cout = [],
                                    cerr = ''invalid root: '' @ path_string root @ [newline]\<rparr>
         in case fs_exists env root of
              None \<Rightarrow> Aborted
            | Some found \<Rightarrow>
                if \<not> found then invalid_root
                else
                  (case fs_is_directory env root of
                     None \<Rightarrow> Aborted
                   | Some is_dir \<Rightarrow>
                       if \<not> is_dir then invalid_root
                       else
                         (case scan_loop env (fst (fs_recursive_directory_iterator env root))
                                 (snd (fs_recursive_directory_iterator env root)) scan_init of
                            None \<Rightarrow> Aborted
                          | Some st \<Rightarrow>
                              Exited \<lparr>exit_code = 0, cout = render root st @ [newline],
                                      cerr = []\<rparr>))))"

subsection \<open>Hashing a stream chunk by chunk\<close>

text \<open>
  What the \<^verbatim>\<open>while\<close> loop of \<open>fnv1a64_file\<close> does with the chunks it reads: the byte
  loop runs over each chunk in order and starts from the \<open>hash\<close> that the chunk before
  it left.
\<close>

definition hash_chunks :: "u8 list list \<Rightarrow> u64 \<Rightarrow> u64" where
  "hash_chunks chunks hash = foldl (\<lambda>acc chunk. hash_bytes chunk (length chunk) 0 acc) hash chunks"

text \<open>
  \<open>otoshi_fnv1a64\<close> has the two parameters \<^verbatim>\<open>data\<close> and \<^verbatim>\<open>len\<close> and no parameter for
  a running state.  Called on the chunks of a stream one after the other, each call starts
  from \<open>offset\<close> again, and the Digest in hand at the end is that of the last call.
\<close>

definition otoshi_fnv1a64_successive :: "u8 list list \<Rightarrow> u64 option" where
  "otoshi_fnv1a64_successive chunks =
     foldl (\<lambda>acc chunk. otoshi_fnv1a64 (Some chunk) (length chunk)) (otoshi_fnv1a64 None 0) chunks"

subsection \<open>The hash as the specification words it\<close>

text \<open>
  The specification's algorithm: start from the offset basis and, for each byte \<open>b\<close> in
  order, \<open>acc = (acc XOR b) * prime\<close> in unsigned 64-bit arithmetic.
\<close>

definition spec_fnv1a_step :: "u64 \<Rightarrow> u8 \<Rightarrow> u64" where
  "spec_fnv1a_step acc b = (acc XOR ucast b) * 1099511628211"

definition spec_fnv1a64 :: "u8 list \<Rightarrow> u64" where
  "spec_fnv1a64 bs = foldl spec_fnv1a_step 1469598103934665603 bs"

subsection \<open>The visited files and the aggregate as the specification words them\<close>

text \<open>
  The entries the scan visits: the regular files whose size could be determined, in the
  order of the traversal, and their sizes as numbers.
\<close>

definition visited :: "directory_entry list \<Rightarrow> directory_entry list" where
  "visited entries =
     filter (\<lambda>e. entry_is_regular_file e = Some True \<and> entry_file_size e \<noteq> None) entries"

definition visited_sizes :: "directory_entry list \<Rightarrow> nat list" where
  "visited_sizes entries = map (\<lambda>e. unat (the (entry_file_size e))) (visited entries)"

text \<open>
  A scan runs to completion when no call of \<^verbatim>\<open>is_regular_file\<close> throws and the iterator
  reaches the end.
\<close>

definition scan_completes :: "directory_entry list \<Rightarrow> walk_end \<Rightarrow> bool" where
  "scan_completes entries ending =
     (list_all (\<lambda>e. entry_is_regular_file e \<noteq> None) entries \<and> ending = Reaches_end)"

text \<open>
  The specification's fold: \<open>aggregate = (aggregate XOR file_digest) * prime\<close> over the
  Digests in order, seeded with the offset basis.
\<close>

definition spec_aggregate :: "u64 list \<Rightarrow> u64" where
  "spec_aggregate digests =
     foldl (\<lambda>agg file_digest. (agg XOR file_digest) * 1099511628211) 1469598103934665603 digests"

subsection \<open>Reading a decimal numeral\<close>

text \<open>The number that a string of decimal digits denotes, most significant digit first.\<close>

definition digit_value :: "char \<Rightarrow> nat" where
  "digit_value c = of_char c - 48"

definition decimal_value :: "string \<Rightarrow> nat" where
  "decimal_value s = foldl (\<lambda>v c. 10 * v + digit_value c) 0 s"

definition is_decimal :: "string \<Rightarrow> bool" where
  "is_decimal s = (s \<noteq> [] \<and> list_all (\<lambda>c. c \<in> set ''0123456789'') s)"

subsection \<open>Concrete environments\<close>

text \<open>
  A directory \<open>d\<close> with the regular file \<open>d/abc\<close>, whose content is the three bytes of
  \<open>abc\<close>, a subdirectory \<open>d/sub\<close>, and an entry \<open>d/gone\<close> whose size cannot be
  determined; and an empty directory \<open>empty\<close>.
\<close>

definition abc_entries :: "directory_entry list" where
  "abc_entries =
     [\<lparr>entry_path = ''d/sub'', entry_is_regular_file = Some False, entry_file_size = None\<rparr>,
      \<lparr>entry_path = ''d/abc'', entry_is_regular_file = Some True, entry_file_size = Some 3\<rparr>,
      \<lparr>entry_path = ''d/gone'', entry_is_regular_file = Some True, entry_file_size = None\<rparr>]"

definition abc_env :: fs_env where
  "abc_env =
     \<lparr>fs_open = (\<lambda>p. if p = ''d/abc'' then Some \<lparr>content = [97, 98, 99], read_fault = None\<rparr>
                    else None),
      fs_exists = (\<lambda>p. Some (p = ''d'' \<or> p = ''d/abc'' \<or> p = ''d/sub'' \<or> p = ''empty'')),
      fs_is_directory = (\<lambda>p. Some (p = ''d'' \<or> p = ''d/sub'' \<or> p = ''empty'')),
      fs_recursive_directory_iterator =
        (\<lambda>p. if p = ''d'' then (abc_entries, Reaches_end) else ([], Reaches_end)),
      uninitialised = (\<lambda>i. 0)\<rparr>"

text \<open>
  A file \<open>f\<close> of one byte that can be opened and whose first read fails (a device
  error at offset 0).
\<close>

definition faulty_env :: fs_env where
  "faulty_env =
     \<lparr>fs_open = (\<lambda>p. if p = ''f'' then Some \<lparr>content = [1], read_fault = Some 0\<rparr> else None),
      fs_exists = (\<lambda>p. Some (p = ''f'')),
      fs_is_directory = (\<lambda>p. Some False),
      fs_recursive_directory_iterator = (\<lambda>p. ([], Reaches_end)),
      uninitialised = (\<lambda>i. 0)\<rparr>"

text \<open>
  A directory \<open>big\<close> with three regular files of \<open>2 ^ 63 - 1\<close> bytes each, the largest
  size a file can have where file offsets are signed 64-bit numbers; as sparse files they
  take no space.  The files can be listed and their sizes read, but they cannot be opened.
\<close>

definition huge_entries :: "directory_entry list" where
  "huge_entries =
     [\<lparr>entry_path = ''big/x'', entry_is_regular_file = Some True,
        entry_file_size = Some 9223372036854775807\<rparr>,
      \<lparr>entry_path = ''big/y'', entry_is_regular_file = Some True,
        entry_file_size = Some 9223372036854775807\<rparr>,
      \<lparr>entry_path = ''big/z'', entry_is_regular_file = Some True,
        entry_file_size = Some 9223372036854775807\<rparr>]"

definition huge_env :: fs_env where
  "huge_env =
     \<lparr>fs_open = (\<lambda>p. None),
      fs_exists = (\<lambda>p. Some (p = ''big'' \<or> p = ''big/x'' \<or> p = ''big/y'' \<or> p = ''big/z'')),
      fs_is_directory = (\<lambda>p. Some (p = ''big'')),
      fs_recursive_directory_iterator =
        (\<lambda>p. if p = ''big'' then (huge_entries, Reaches_end) else ([], Reaches_end)),
      uninitialised = (\<lambda>i. 0)\<rparr>"

text \<open>An empty directory whose name holds a double quote: \<open>a"b\<close>.\<close>

definition quote_env :: fs_env where
  \<open>quote_env =
     \<lparr>fs_open = (\<lambda>p. None),
      fs_exists = (\<lambda>p. Some (p = ''a"b'')),
      fs_is_directory = (\<lambda>p. Some (p = ''a"b'')),
      fs_recursive_directory_iterator = (\<lambda>p. ([], Reaches_end)),
      uninitialised = (\<lambda>i. 0)\<rparr>\<close>

text \<open>
  A file system with no files, where a file name may have at most 255 bytes: the status
  of a longer name cannot be read (\<^verbatim>\<open>ENAMETOOLONG\<close>) and \<^verbatim>\<open>fs::exists\<close> throws.  The
  name \<open>long_name\<close> has 300 bytes.
\<close>

definition name_max_env :: fs_env where
  "name_max_env =
     \<lparr>fs_open = (\<lambda>p. None),
      fs_exists = (\<lambda>p. if 255 < length p then None else Some False),
      fs_is_directory = (\<lambda>p. if 255 < length p then None else Some False),
      fs_recursive_directory_iterator = (\<lambda>p. ([], Throws_error)),
      uninitialised = (\<lambda>i. 0)\<rparr>"

definition long_name :: path where
  "long_name = replicate 300 CHR ''a''"

text \<open>
  A directory \<open>links\<close> whose one entry \<open>links/self\<close> is a symbolic link to itself: its
  status cannot be read (\<^verbatim>\<open>ELOOP\<close>) and \<^verbatim>\<open>entry.is_regular_file()\<close> throws.
\<close>

definition loop_env :: fs_env where
  "loop_env =
     \<lparr>fs_open = (\<lambda>p. None),
      fs_exists = (\<lambda>p. if p = ''links'' then Some True else None),
      fs_is_directory = (\<lambda>p. if p = ''links'' then Some True else None),
      fs_recursive_directory_iterator =
        (\<lambda>p. ([\<lparr>entry_path = ''links/self'', entry_is_regular_file = None,
                  entry_file_size = None\<rparr>], Reaches_end)),
      uninitialised = (\<lambda>i. 0)\<rparr>"

section \<open>Properties of otoshi\_fnv1a64\<close>

lemma fnv1a64_loop_foldl:
  "len \<le> length data \<Longrightarrow> i \<le> len \<Longrightarrow>
   fnv1a64_loop data len i h = Some (foldl spec_fnv1a_step h (take (len - i) (drop i data)))"
proof (induction data len i h rule: fnv1a64_loop.induct)
  case (1 data len i hash)
  show ?case
  proof (cases "i < len")
    case True
    with "1.prems" have in_range: "i < length data" by simp
    have split: "take (len - i) (drop i data) = data ! i # take (len - (i + 1)) (drop (i + 1) data)"
      using True in_range
      by (metis Cons_nth_drop_Suc Suc_diff_Suc Suc_eq_plus1 take_Suc_Cons)
    have step: "(hash XOR ucast (data ! i)) * prime = spec_fnv1a_step hash (data ! i)"
      by (simp add: spec_fnv1a_step_def prime_def)
    have "fnv1a64_loop data len i hash
            = fnv1a64_loop data len (i + 1) ((hash XOR ucast (data ! i)) * prime)"
      using True in_range by (subst fnv1a64_loop.simps) simp
    also have "\<dots> = Some (foldl spec_fnv1a_step ((hash XOR ucast (data ! i)) * prime)
                          (take (len - (i + 1)) (drop (i + 1) data)))"
      using "1.IH" [OF True in_range] "1.prems" True by simp
    finally show ?thesis
      unfolding split step by simp
  next
    case False
    with "1.prems" have "i = len" by simp
    then show ?thesis by (subst fnv1a64_loop.simps) simp
  qed
qed

text \<open>
  C1.  For every byte sequence \<open>data\<close>, \<open>otoshi_fnv1a64\<close> called with its length returns
  the fold of the FNV-1a step over the bytes in order, from the offset basis
  1469598103934665603 and with \<open>acc = (acc XOR b) * 1099511628211\<close> on 64-bit words; for a
  null pointer (whatever the length) and for length zero it returns the offset basis.
\<close>

theorem otoshi_fnv1a64_is_fold:
  "otoshi_fnv1a64 (Some data) (length data) = Some (spec_fnv1a64 data)
   \<and> otoshi_fnv1a64 None len = Some 1469598103934665603
   \<and> otoshi_fnv1a64 (Some data) 0 = Some 1469598103934665603"
proof -
  have "fnv1a64_loop data (length data) 0 offset = Some (foldl spec_fnv1a_step offset data)"
    using fnv1a64_loop_foldl [of "length data" data 0 offset] by simp
  moreover have "fnv1a64_loop data 0 0 offset = Some offset"
    by (subst fnv1a64_loop.simps) simp
  ultimately show ?thesis
    by (simp add: otoshi_fnv1a64_def spec_fnv1a64_def offset_def)
qed

theorem otoshi_fnv1a64_is_fold_witness:
  "otoshi_fnv1a64 (Some [97, 98, 99]) 3 = Some 16242233503745875709
   \<and> otoshi_fnv1a64 (Some []) 0 = Some 1469598103934665603"
  using otoshi_fnv1a64_is_fold [of "[97, 98, 99]"] otoshi_fnv1a64_is_fold [of "[]"]
  by (simp add: spec_fnv1a64_def spec_fnv1a_step_def numeral_3_eq_3)

section \<open>Properties of otoshi\_consttime\_eq\<close>

lemma xor_eq_0_iff_u8: "(x XOR y = 0) = (x = y)" for x y :: u8
proof
  assume "x XOR y = 0"
  then have "x XOR (x XOR y) = x" by simp
  then show "x = y" by (simp flip: xor.assoc)
qed simp

lemma consttime_loop_run:
  "len \<le> length l \<Longrightarrow> len \<le> length r \<Longrightarrow> i \<le> len \<Longrightarrow>
   consttime_loop l r len i diff reads =
     Some (foldl (OR) diff (map (\<lambda>k. l ! k XOR r ! k) [i..<len]),
           reads @ concat (map (\<lambda>k. [Read_left k, Read_right k]) [i..<len]))"
proof (induction l r len i diff reads rule: consttime_loop.induct)
  case (1 left right len i diff reads)
  show ?case
  proof (cases "i < len")
    case True
    with "1.prems" have in_range: "i < length left \<and> i < length right" by simp
    have upt: "[i..<len] = i # [i + 1..<len]"
      using True by (simp add: upt_conv_Cons)
    have "consttime_loop left right len i diff reads
            = consttime_loop left right len (i + 1) (diff OR (left ! i XOR right ! i))
                (reads @ [Read_left i, Read_right i])"
      using True in_range by (subst consttime_loop.simps) simp
    also have "\<dots> = Some (foldl (OR) (diff OR (left ! i XOR right ! i))
                            (map (\<lambda>k. left ! k XOR right ! k) [i + 1..<len]),
                          (reads @ [Read_left i, Read_right i])
                            @ concat (map (\<lambda>k. [Read_left k, Read_right k]) [i + 1..<len]))"
      using "1.IH" [OF True in_range] "1.prems" True by simp
    finally show ?thesis
      unfolding upt by simp
  next
    case False
    with "1.prems" have "i = len" by simp
    then show ?thesis by (subst consttime_loop.simps) simp
  qed
qed

lemma foldl_or_eq_0_iff:
  "(foldl (OR) d xs = 0) = (d = 0 \<and> (\<forall>x \<in> set xs. x = 0))" for d :: u8
  by (induction xs arbitrary: d) (auto simp: or_eq_0_iff)

lemma or_of_xors_eq_0_iff:
  "(or_of_xors l r len = 0) = (\<forall>i<len. l ! i = r ! i)"
  by (auto simp: or_of_xors_def foldl_or_eq_0_iff xor_eq_0_iff_u8)

lemma otoshi_consttime_eq_run_eq:
  "len \<le> length l \<Longrightarrow> len \<le> length r \<Longrightarrow>
   otoshi_consttime_eq_run (Some l) (Some r) len =
     Some (if or_of_xors l r len = 0 then 1 else 0, all_positions len)"
  by (simp add: otoshi_consttime_eq_run_def consttime_loop_run or_of_xors_def all_positions_def)

text \<open>
  C5.  For two buffers that hold at least the declared \<open>len\<close> bytes, \<open>otoshi_consttime_eq\<close>
  returns 1 (true) if and only if every corresponding pair among the first \<open>len\<close> bytes is
  equal, and 0 otherwise; so it returns 1 for \<open>len = 0\<close>.  When either pointer is null
  it returns 0, whatever \<open>len\<close> is.
\<close>

theorem otoshi_consttime_eq_iff:
  "(len \<le> length l \<and> len \<le> length r \<longrightarrow>
      otoshi_consttime_eq (Some l) (Some r) len = Some (if \<forall>i<len. l ! i = r ! i then 1 else 0))
   \<and> otoshi_consttime_eq (Some l) (Some r) 0 = Some 1
   \<and> otoshi_consttime_eq None right len = Some 0
   \<and> otoshi_consttime_eq left None len = Some 0"
proof -
  have "otoshi_consttime_eq_run left None len = Some (0, [])"
    by (cases left) (simp_all add: otoshi_consttime_eq_run_def)
  moreover have "otoshi_consttime_eq_run None right len = Some (0, [])"
    by (simp add: otoshi_consttime_eq_run_def)
  moreover have "otoshi_consttime_eq_run (Some l) (Some r) 0 = Some (1, [])"
    using otoshi_consttime_eq_run_eq [of 0 l r]
    by (simp add: or_of_xors_def all_positions_def)
  ultimately show ?thesis
    by (simp add: otoshi_consttime_eq_def otoshi_consttime_eq_run_eq or_of_xors_eq_0_iff)
qed

theorem otoshi_consttime_eq_iff_witness:
  "otoshi_consttime_eq (Some [1, 2, 3]) (Some [1, 2, 3]) 3 = Some 1
   \<and> otoshi_consttime_eq (Some [1, 2, 3]) (Some [1, 7, 3]) 3 = Some 0
   \<and> otoshi_consttime_eq (Some [1, 2, 3]) (Some [1, 2, 9]) 2 = Some 1"
proof -
  have nth3: "(\<forall>i<3. P i) = (P 0 \<and> P 1 \<and> P (2::nat))" for P
    by (auto simp: less_Suc_eq numeral_3_eq_3 numeral_2_eq_2)
  have nth2: "(\<forall>i<2. P i) = (P 0 \<and> P (1::nat))" for P
    by (auto simp: less_Suc_eq numeral_2_eq_2)
  show ?thesis
    using otoshi_consttime_eq_iff [of 3 "[1, 2, 3]" "[1, 2, 3]"]
      otoshi_consttime_eq_iff [of 3 "[1, 2, 3]" "[1, 7, 3]"]
      otoshi_consttime_eq_iff [of 2 "[1, 2, 3]" "[1, 2, 9]"]
    by (simp add: nth3 nth2)
qed

text \<open>
  C6.  For two non-null buffers that hold at least \<open>len\<close> bytes, the comparator does not
  stop at a mismatch: its verdict is taken from the running OR of the XOR differences of
  all \<open>len\<close> positions, and the reads it performs are those of every position
  \<open>0, \<dots>, len - 1\<close> of both inputs, in order: \<open>2 * len\<close> byte reads, the same for all
  contents.
\<close>

theorem otoshi_consttime_eq_reads_all:
  "len \<le> length l \<and> len \<le> length r \<longrightarrow>
     otoshi_consttime_eq_run (Some l) (Some r) len =
       Some (if or_of_xors l r len = 0 then 1 else 0, all_positions len)
     \<and> length (all_positions len) = 2 * len
     \<and> (\<forall>l' r'. len \<le> length l' \<and> len \<le> length r' \<longrightarrow>
          map_option snd (otoshi_consttime_eq_run (Some l') (Some r') len)
            = map_option snd (otoshi_consttime_eq_run (Some l) (Some r) len))"
proof -
  have "length (all_positions n) = 2 * n" for n
    by (induction n) (simp_all add: all_positions_def)
  then show ?thesis
    by (simp add: otoshi_consttime_eq_run_eq)
qed

theorem otoshi_consttime_eq_reads_all_witness:
  "otoshi_consttime_eq_run (Some [5, 6, 7]) (Some [9, 6, 7]) 3
     = Some (0, [Read_left 0, Read_right 0, Read_left 1, Read_right 1, Read_left 2, Read_right 2])
   \<and> map_option snd (otoshi_consttime_eq_run (Some [5, 6, 7]) (Some [5, 6, 8]) 3)
     = map_option snd (otoshi_consttime_eq_run (Some [5, 6, 7]) (Some [9, 6, 7]) 3)"
proof -
  have upt3: "[0..<3] = [0, 1, 2]"
    by (simp add: upt_rec numeral_3_eq_3)
  have "or_of_xors [5, 6, 7] [9, 6, 7] 3 \<noteq> 0"
    by (simp add: or_of_xors_def upt3)
  then show ?thesis
    using otoshi_consttime_eq_reads_all [of 3 "[5, 6, 7]" "[9, 6, 7]"]
    by (simp add: all_positions_def upt3)
qed

section \<open>Properties of fnv1a64\_file\<close>

lemma kPrime_eq_prime: "kPrime = prime"
  by (simp add: kPrime_def prime_def)

lemma kOffset_eq_offset: "kOffset = offset"
  by (simp add: kOffset_def offset_def)

lemma hash_bytes_foldl:
  "bytes \<le> length buffer \<Longrightarrow> i \<le> bytes \<Longrightarrow>
   hash_bytes buffer bytes i h = foldl spec_fnv1a_step h (take (bytes - i) (drop i buffer))"
proof (induction buffer bytes i h rule: hash_bytes.induct)
  case (1 buffer bytes i hash)
  show ?case
  proof (cases "i < bytes")
    case True
    with "1.prems" have in_range: "i < length buffer" by simp
    have split: "take (bytes - i) (drop i buffer)
                   = buffer ! i # take (bytes - (i + 1)) (drop (i + 1) buffer)"
      using True in_range
      by (metis Cons_nth_drop_Suc Suc_diff_Suc Suc_eq_plus1 take_Suc_Cons)
    have step: "(hash XOR ucast (buffer ! i)) * kPrime = spec_fnv1a_step hash (buffer ! i)"
      by (simp add: spec_fnv1a_step_def kPrime_def)
    have "hash_bytes buffer bytes i hash
            = hash_bytes buffer bytes (i + 1) ((hash XOR ucast (buffer ! i)) * kPrime)"
      using True by (subst hash_bytes.simps) simp
    also have "\<dots> = foldl spec_fnv1a_step ((hash XOR ucast (buffer ! i)) * kPrime)
                        (take (bytes - (i + 1)) (drop (i + 1) buffer))"
      using "1.IH" [OF True] "1.prems" True by simp
    finally show ?thesis
      unfolding split step by simp
  next
    case False
    with "1.prems" have "i = bytes" by simp
    then show ?thesis by (subst hash_bytes.simps) simp
  qed
qed

lemma hash_bytes_whole: "hash_bytes chunk (length chunk) 0 h = foldl spec_fnv1a_step h chunk"
  using hash_bytes_foldl [of "length chunk" chunk 0 h] by simp

text \<open>Only the bytes that a read stored are hashed, not what the buffer held before.\<close>

lemma hash_bytes_prefix:
  "hash_bytes (got @ stale) (length got) 0 h = foldl spec_fnv1a_step h got"
  using hash_bytes_foldl [of "length got" "got @ stale" 0 h] by simp

lemma hash_chunks_concat: "hash_chunks chunks h = foldl spec_fnv1a_step h (concat chunks)"
  unfolding hash_chunks_def
  by (induction chunks arbitrary: h) (simp_all add: hash_bytes_whole)

lemma otoshi_fnv1a64_whole:
  "length bs = len \<Longrightarrow> otoshi_fnv1a64 (Some bs) len = Some (foldl spec_fnv1a_step offset bs)"
  using fnv1a64_loop_foldl [of "length bs" bs 0 offset] by (auto simp: otoshi_fnv1a64_def)

lemma length_char_buffer: "length (char_buffer env) = buffer_size"
  by (simp add: char_buffer_def)

text \<open>A read never reports more bytes than it was asked for, so the byte loop stays in the buffer.\<close>

lemma gcount_istream_read_le: "gcount (fst (istream_read s buffer n)) \<le> n"
  by (auto simp: istream_read_def Let_def)

lemma length_buffer_istream_read:
  "n \<le> length buffer \<Longrightarrow> length (snd (istream_read s buffer n)) = length buffer"
  by (simp add: istream_read_def Let_def)

text \<open>
  What the loop hashes of a stream: all its bytes when it ends at the end of the file;
  when an error follows them, the bytes of the chunks that were read in full.
\<close>

lemma take_whole_chunks:
  assumes "0 < n" "n \<le> length u"
  shows "take (length u div n * n) u = take n u @ take (length (drop n u) div n * n) (drop n u)"
proof -
  have "length u div n = Suc ((length u - n) div n)"
    using assms by (simp add: le_div_geq)
  then have "length u div n * n = n + length (drop n u) div n * n"
    by simp
  then show ?thesis
    by (simp only: take_add)
qed

lemma read_loop_foldl:
  "length buffer = buffer_size \<Longrightarrow>
   read_loop s buffer h =
     (if good s
      then foldl spec_fnv1a_step h
             (if error_follows s
              then take (length (unread s) div buffer_size * buffer_size) (unread s)
              else unread s)
      else h)"
proof (induction s buffer h rule: read_loop.induct)
  case (1 s buffer hash)
  show ?case
  proof (cases "good s")
    case False
    then show ?thesis by (subst read_loop.simps) simp
  next
    case True
    let ?got = "take buffer_size (unread s)"
    let ?buffer' = "?got @ drop (length ?got) buffer"
    have len': "length ?buffer' = buffer_size"
      using "1.prems" by simp
    have chunk: "hash_bytes ?buffer' (length ?got) 0 hash = foldl spec_fnv1a_step hash ?got"
      by (rule hash_bytes_prefix)
    show ?thesis
    proof (cases "length ?got = buffer_size")
      case full: True
      let ?s' = "s\<lparr>unread := drop buffer_size (unread s), gcount := buffer_size\<rparr>"
      let ?rest = "if error_follows s
                   then take (length (drop buffer_size (unread s)) div buffer_size * buffer_size)
                          (drop buffer_size (unread s))
                   else drop buffer_size (unread s)"
      have rd: "istream_read s buffer buffer_size = (?s', ?buffer')"
        using True full by (simp add: istream_read_def Let_def)
      have good': "good ?s'"
        using True by (simp add: good_def)
      have enough: "buffer_size \<le> length (unread s)"
        using full by simp
      have "read_loop s buffer hash
              = read_loop ?s' ?buffer' (hash_bytes ?buffer' buffer_size 0 hash)"
        using True by (subst read_loop.simps) (simp add: rd)
      also have "\<dots> = foldl spec_fnv1a_step (hash_bytes ?buffer' buffer_size 0 hash) ?rest"
        using "1.IH" [OF True] len' good' by (simp add: rd)
      also have "\<dots> = foldl spec_fnv1a_step (foldl spec_fnv1a_step hash ?got) ?rest"
        using chunk full by simp
      also have "\<dots> = foldl spec_fnv1a_step hash (?got @ ?rest)"
        by (simp only: foldl_append)
      also have "?got @ ?rest =
                   (if error_follows s
                    then take (length (unread s) div buffer_size * buffer_size) (unread s)
                    else unread s)"
        using take_whole_chunks [of buffer_size "unread s"] enough
        by (simp add: buffer_size_def)
      finally show ?thesis
        using True by simp
    next
      case short: False
      define s' where "s' = fst (istream_read s buffer buffer_size)"
      have rd: "snd (istream_read s buffer buffer_size) = ?buffer'"
        "gcount s' = (if error_follows s then 0 else length ?got)" "\<not> good s'"
        using True short by (auto simp: s'_def istream_read_def Let_def good_def)
      have all: "?got = unread s" and less: "length (unread s) < buffer_size"
        using short by simp_all
      have none: "hash_bytes ?buffer' 0 0 hash = hash"
        by (subst hash_bytes.simps) simp
      have "read_loop s buffer hash = read_loop s' ?buffer' (hash_bytes ?buffer' (gcount s') 0 hash)"
        using True rd by (subst read_loop.simps) (simp add: s'_def)
      also have "\<dots> = hash_bytes ?buffer' (gcount s') 0 hash"
        using rd by (subst read_loop.simps) simp
      finally show ?thesis
        using True chunk all less none rd(2) by simp
    qed
  qed
qed

lemma fnv1a64_file_opened:
  "fs_open env p = Some f \<Longrightarrow>
   fnv1a64_file env p =
     foldl spec_fnv1a_step offset
       (case read_fault f of
          None \<Rightarrow> content f
        | Some k \<Rightarrow>
            take (min (length (content f)) k div buffer_size * buffer_size) (content f))"
proof -
  have "min (m div buffer_size * buffer_size) k = m div buffer_size * buffer_size"
    if "m \<le> k" for m k :: nat
  proof -
    have "m div buffer_size * buffer_size \<le> m"
      by (rule div_times_less_eq_dividend)
    with that have "m div buffer_size * buffer_size \<le> k"
      by linarith
    then show ?thesis
      by (rule min_absorb1)
  qed
  then show "fs_open env p = Some f \<Longrightarrow> ?thesis"
    by (simp add: fnv1a64_file_def ifstream_open_def read_loop_foldl length_char_buffer
        good_def kOffset_eq_offset split: option.splits)
qed

lemma fnv1a64_file_not_opened: "fs_open env p = None \<Longrightarrow> fnv1a64_file env p = kOffset"
  by (simp add: fnv1a64_file_def ifstream_open_def)

text \<open>
  C2, as the code has it.  For every byte sequence and every split of it into consecutive
  chunks (any number of them, of any lengths), running the byte loop of the File Hasher
  over the chunks in order, the first from the offset basis and each later one from the
  accumulator that the chunk before it left, gives the Digest that one call of
  \<open>otoshi_fnv1a64\<close> returns on the whole sequence.  The running state is the local
  variable \<open>hash\<close> of \<open>fnv1a64_file\<close>; \<open>otoshi_fnv1a64\<close> itself takes no initial state.
\<close>

theorem hash_chunks_eq_one_call:
  "Some (hash_chunks chunks kOffset) = otoshi_fnv1a64 (Some (concat chunks)) (length (concat chunks))"
  by (simp add: hash_chunks_concat otoshi_fnv1a64_whole kOffset_eq_offset)

theorem hash_chunks_eq_one_call_witness:
  "hash_chunks [[97], [98, 99]] kOffset = 16242233503745875709
   \<and> otoshi_fnv1a64 (Some [97, 98, 99]) 3 = Some 16242233503745875709"
proof -
  have "hash_chunks [[97], [98, 99]] kOffset = 16242233503745875709"
    by (simp add: hash_chunks_concat spec_fnv1a_step_def kOffset_def)
  then show ?thesis
    using hash_chunks_eq_one_call [of "[[97], [98, 99]]"] by (simp add: numeral_3_eq_3)
qed

text \<open>
  The claim C2 as the specification states it, with the chunks given to the exported
  primitive, fails: \<open>otoshi_fnv1a64\<close> cannot be seeded, so after the chunks \<open>[1]\<close> and
  \<open>[2]\<close> the Digest is that of \<open>[2]\<close> alone, not that of \<open>[1, 2]\<close>.
\<close>

theorem otoshi_fnv1a64_successive_counterexample:
  "otoshi_fnv1a64_successive [[1], [2]] \<noteq> otoshi_fnv1a64 (Some [1, 2]) 2"
proof -
  have "otoshi_fnv1a64_successive [[1], [2]] = otoshi_fnv1a64 (Some [2]) 1"
    by (simp add: otoshi_fnv1a64_successive_def)
  also have "\<dots> = Some (foldl spec_fnv1a_step offset [2])"
    by (rule otoshi_fnv1a64_whole) simp
  finally have one: "otoshi_fnv1a64_successive [[1], [2]] = Some (foldl spec_fnv1a_step offset [2])" .
  have two: "otoshi_fnv1a64 (Some [1, 2]) 2 = Some (foldl spec_fnv1a_step offset [1, 2])"
    by (rule otoshi_fnv1a64_whole) simp
  show ?thesis
    unfolding one two by (simp add: spec_fnv1a_step_def offset_def)
qed

text \<open>
  C3, as the code has it.  If the file can be opened and no read fails before the end of
  the file, \<open>fnv1a64_file\<close>, reading chunks of 8192 bytes into a buffer and hashing of
  each chunk only the bytes the read stored, returns the Digest that \<open>otoshi_fnv1a64\<close>
  returns on the whole content of the file, whatever the buffer held before.  If the file
  cannot be opened it returns the offset basis.
\<close>

theorem fnv1a64_file_eq_one_shot:
  "(fs_open env p = Some f \<and> read_fault f = None \<longrightarrow>
      Some (fnv1a64_file env p) = otoshi_fnv1a64 (Some (content f)) (length (content f)))
   \<and> (fs_open env p = None \<longrightarrow> fnv1a64_file env p = 1469598103934665603)"
  by (simp add: fnv1a64_file_opened fnv1a64_file_not_opened otoshi_fnv1a64_whole kOffset_def)

theorem fnv1a64_file_eq_one_shot_witness:
  "Some (fnv1a64_file abc_env ''d/abc'') = otoshi_fnv1a64 (Some [97, 98, 99]) 3
   \<and> fnv1a64_file abc_env ''d/nothing'' = 1469598103934665603"
proof -
  have "fs_open abc_env ''d/abc'' = Some \<lparr>content = [97, 98, 99], read_fault = None\<rparr>"
    and "fs_open abc_env ''d/nothing'' = None"
    by (simp_all add: abc_env_def)
  then show ?thesis
    using fnv1a64_file_eq_one_shot [of abc_env "''d/abc''" "\<lparr>content = [97, 98, 99], read_fault = None\<rparr>"]
      fnv1a64_file_eq_one_shot [of abc_env "''d/nothing''"]
    by (simp add: numeral_3_eq_3)
qed

text \<open>
  The claim C3 as the specification states it fails for a file that can be opened but
  not read: the first read of \<open>f\<close> sets \<^verbatim>\<open>badbit\<close> and stores nothing, the loop ends,
  and the result is the offset basis, not the Digest of the content \<open>[1]\<close>.
\<close>

theorem fnv1a64_file_read_error_counterexample:
  "fs_open faulty_env ''f'' = Some \<lparr>content = [1], read_fault = Some 0\<rparr>
   \<and> fnv1a64_file faulty_env ''f'' = 1469598103934665603
   \<and> otoshi_fnv1a64 (Some [1]) 1 = Some 4953162257141659110
   \<and> Some (fnv1a64_file faulty_env ''f'') \<noteq> otoshi_fnv1a64 (Some [1]) 1"
proof -
  have opened: "fs_open faulty_env ''f'' = Some \<lparr>content = [1], read_fault = Some 0\<rparr>"
    by (simp add: faulty_env_def)
  have hashed: "fnv1a64_file faulty_env ''f'' = 1469598103934665603"
    by (simp add: fnv1a64_file_opened [OF opened] offset_def)
  have one_shot: "otoshi_fnv1a64 (Some [1]) 1 = Some 4953162257141659110"
    by (simp add: otoshi_fnv1a64_whole spec_fnv1a_step_def offset_def)
  show ?thesis
    unfolding hashed one_shot using opened by simp
qed

section \<open>Properties of the scan\<close>

lemma visited_Cons:
  "visited (e # es) =
     (if entry_is_regular_file e = Some True \<and> entry_file_size e \<noteq> None
      then e # visited es else visited es)"
  by (simp add: visited_def)

lemma visited_Nil: "visited [] = []"
  by (simp add: visited_def)


lemma scan_completes_Cons:
  "scan_completes (e # es) ending = (entry_is_regular_file e \<noteq> None \<and> scan_completes es ending)"
  by (simp add: scan_completes_def)


text \<open>A scan that runs to completion, from any state: what it adds for the visited entries.\<close>

lemma scan_loop_completes:
  "scan_completes entries ending \<Longrightarrow>
   scan_loop env entries ending st =
     Some \<lparr>file_count = file_count st + of_nat (length (visited entries)),
           total_bytes = total_bytes st + sum_list (map (\<lambda>e. the (entry_file_size e)) (visited entries)),
           aggregate =
             foldl (\<lambda>agg file_digest. (agg XOR file_digest) * 1099511628211) (aggregate st)
               (map (\<lambda>e. fnv1a64_file env (entry_path e)) (visited entries))\<rparr>"
proof (induction entries arbitrary: st)
  case Nil
  then show ?case
    by (simp add: scan_completes_def visited_Nil)
next
  case (Cons e es)
  from Cons.prems obtain regular where e: "entry_is_regular_file e = Some regular"
    and rest: "scan_completes es ending"
    by (auto simp: scan_completes_Cons)
  show ?case
  proof (cases "regular \<and> entry_file_size e \<noteq> None")
    case False
    then show ?thesis
      using e Cons.IH [OF rest] by (auto simp: visited_Cons)
  next
    case True
    then obtain sz where sz: "entry_file_size e = Some sz"
      by auto
    show ?thesis
      using True e sz Cons.IH [OF rest]
      by (simp add: visited_Cons Let_def kPrime_def add.assoc)
  qed
qed

text \<open>A scan in which a status call or the iterator throws leaves no state.\<close>

lemma scan_loop_aborts:
  "\<not> scan_completes entries ending \<Longrightarrow> scan_loop env entries ending st = None"
proof (induction entries arbitrary: st)
  case Nil
  then show ?case
    by (cases ending) (simp_all add: scan_completes_def)
next
  case (Cons e es)
  then show ?case
    by (cases "entry_is_regular_file e")
      (auto simp: scan_completes_Cons Let_def split: option.splits)
qed

lemma scan_loop_Some_completes:
  "scan_loop env entries ending st = Some st' \<Longrightarrow> scan_completes entries ending"
  by (rule ccontr) (simp add: scan_loop_aborts)


lemma unat_sum_list: "unat (sum_list ws) = sum_list (map unat ws) mod 2 ^ 64" for ws :: "u64 list"
proof (induction ws)
  case Nil
  show ?case by simp
next
  case (Cons w ws)
  have "unat (w + sum_list ws) = (unat w + unat (sum_list ws)) mod 2 ^ 64"
    by (simp add: unat_word_ariths)
  also have "\<dots> = (unat w + sum_list (map unat ws) mod 2 ^ 64) mod 2 ^ 64"
    by (simp only: Cons.IH)
  also have "\<dots> = (unat w + sum_list (map unat ws)) mod 2 ^ 64"
    by (rule mod_add_right_eq)
  finally show ?case by simp
qed

text \<open>The state at the end of a scan that runs to completion.\<close>

lemma scan_loop_from_init:
  assumes "scan_completes entries ending"
  obtains st where "scan_loop env entries ending scan_init = Some st"
    and "unat (file_count st) = length (visited entries) mod 2 ^ 64"
    and "unat (total_bytes st) = sum_list (visited_sizes entries) mod 2 ^ 64"
    and "aggregate st = spec_aggregate (map (\<lambda>e. fnv1a64_file env (entry_path e)) (visited entries))"
proof -
  let ?st = "\<lparr>file_count = of_nat (length (visited entries)),
              total_bytes = sum_list (map (\<lambda>e. the (entry_file_size e)) (visited entries)),
              aggregate = spec_aggregate (map (\<lambda>e. fnv1a64_file env (entry_path e)) (visited entries))\<rparr>"
  have "scan_loop env entries ending scan_init = Some ?st"
    using scan_loop_completes [OF assms, of env scan_init]
    by (simp add: scan_init_def spec_aggregate_def)
  moreover have "unat (file_count ?st) = length (visited entries) mod 2 ^ 64"
    by (simp add: unat_of_nat)
  moreover have "unat (total_bytes ?st) = sum_list (visited_sizes entries) mod 2 ^ 64"
    by (simp add: unat_sum_list visited_sizes_def comp_def)
  ultimately show thesis
    using that [of ?st] by simp
qed

lemma visited_huge_entries: "visited huge_entries = huge_entries"
  by (simp add: visited_def huge_entries_def)

lemma visited_sizes_huge_entries:
  "visited_sizes huge_entries = [9223372036854775807, 9223372036854775807, 9223372036854775807]"
  by (simp add: visited_sizes_def visited_huge_entries) (simp add: huge_entries_def)

lemma scan_completes_huge_entries: "scan_completes huge_entries Reaches_end"
  by (auto simp: scan_completes_def huge_entries_def)

lemma scan_loop_huge_entries:
  "scan_loop huge_env huge_entries Reaches_end scan_init =
     Some \<lparr>file_count = 3, total_bytes = 9223372036854775805, aggregate = 12770502017613416494\<rparr>"
proof -
  have "fs_open huge_env p = None" for p
    by (simp add: huge_env_def)
  then show ?thesis
    by (simp add: huge_entries_def scan_init_def fnv1a64_file_not_opened kOffset_def kPrime_def)
qed

text \<open>The ways through \<open>main\<close>.\<close>

lemma main_too_few_arguments:
  "length argv < 2 \<Longrightarrow>
   main env argv =
     Exited \<lparr>exit_code = 1, cout = [], cerr = ''usage: otoshi_fs_scanner <root-dir>'' @ [newline]\<rparr>"
  by (simp add: main_def)

lemma main_invalid_root:
  "2 \<le> length argv \<Longrightarrow>
   fs_exists env (argv ! 1) = Some False
     \<or> fs_exists env (argv ! 1) = Some True \<and> fs_is_directory env (argv ! 1) = Some False \<Longrightarrow>
   main env argv =
     Exited \<lparr>exit_code = 1, cout = [], cerr = ''invalid root: '' @ argv ! 1 @ [newline]\<rparr>"
  by (auto simp: main_def u8path_def path_string_def Let_def)

lemma main_status_error:
  "2 \<le> length argv \<Longrightarrow>
   fs_exists env (argv ! 1) = None
     \<or> fs_exists env (argv ! 1) = Some True \<and> fs_is_directory env (argv ! 1) = None \<Longrightarrow>
   main env argv = Aborted"
  by (auto simp: main_def u8path_def Let_def)

lemma main_valid_root:
  "2 \<le> length argv \<Longrightarrow> fs_exists env (argv ! 1) = Some True \<Longrightarrow>
   fs_is_directory env (argv ! 1) = Some True \<Longrightarrow>
   fs_recursive_directory_iterator env (argv ! 1) = (entries, ending) \<Longrightarrow>
   main env argv =
     (case scan_loop env entries ending scan_init of
        None \<Rightarrow> Aborted
      | Some st \<Rightarrow>
          Exited \<lparr>exit_code = 0, cout = render (argv ! 1) st @ [newline], cerr = []\<rparr>)"
  by (simp add: main_def u8path_def Let_def del: One_nat_def)

text \<open>The line of a state, with the adjacent pieces of text joined.\<close>

lemma render_line:
  \<open>render root st =
     ''{"root":"'' @ root
       @ ''","file_count":'' @ ostream_dec (unat (file_count st))
       @ '',"total_bytes":'' @ ostream_dec (unat (total_bytes st))
       @ '',"aggregate_hash":"0x'' @ setw_setfill 16 CHR ''0'' (ostream_hex (unat (aggregate st)))
       @ ''"}''\<close>
  by (simp add: render_def u8string_def)

text \<open>\<open>ostream_dec\<close> writes the decimal numeral of its argument.\<close>

lemma digit_char_decimal:
  "d < 10 \<Longrightarrow> digit_value (digit_char d) = d \<and> digit_char d \<in> set ''0123456789''"
proof -
  assume "d < 10"
  then consider "d = 0" | "d = 1" | "d = 2" | "d = 3" | "d = 4"
    | "d = 5" | "d = 6" | "d = 7" | "d = 8" | "d = 9"
    by atomize_elim arith
  then show ?thesis
    by cases (simp_all add: digit_char_def digit_value_def)
qed

lemma decimal_value_ostream_dec: "decimal_value (ostream_dec n) = n"
proof (induction n rule: ostream_dec.induct)
  case (1 n)
  show ?case
  proof (cases "n < 10")
    case True
    then show ?thesis
      using digit_char_decimal [of n]
      by (subst ostream_dec.simps) (simp add: decimal_value_def)
  next
    case False
    have "decimal_value (ostream_dec (n div 10) @ [digit_char (n mod 10)])
            = 10 * decimal_value (ostream_dec (n div 10)) + digit_value (digit_char (n mod 10))"
      by (simp add: decimal_value_def)
    also have "\<dots> = 10 * (n div 10) + n mod 10"
      using "1.IH" [OF False] digit_char_decimal [of "n mod 10"] by simp
    finally show ?thesis
      using False by (subst ostream_dec.simps) simp
  qed
qed

lemma is_decimal_ostream_dec: "is_decimal (ostream_dec n)"
proof (induction n rule: ostream_dec.induct)
  case (1 n)
  show ?case
  proof (cases "n < 10")
    case True
    then show ?thesis
      using digit_char_decimal [of n]
      by (subst ostream_dec.simps) (simp add: is_decimal_def)
  next
    case False
    then show ?thesis
      using "1.IH" [OF False] digit_char_decimal [of "n mod 10"]
      by (subst ostream_dec.simps) (simp add: is_decimal_def)
  qed
qed

lemma visited_abc_entries:
  "visited abc_entries =
     [\<lparr>entry_path = ''d/abc'', entry_is_regular_file = Some True, entry_file_size = Some 3\<rparr>]"
  by (simp add: visited_def abc_entries_def)

lemma scan_completes_abc_entries: "scan_completes abc_entries Reaches_end"
  by (auto simp: scan_completes_def abc_entries_def)

text \<open>
  C4.  For every sequence of entries of a scan that runs to completion, the aggregate at
  the end of the scan is the left fold of \<open>aggregate = (aggregate XOR file_digest) * prime\<close>
  over the Digests of the visited regular files in traversal order, seeded with the offset
  basis.  When no file is visited, as in an empty directory, the scan ends with
  \<open>file_count = 0\<close>, \<open>total_bytes = 0\<close> and the aggregate equal to the offset basis
  1469598103934665603.
\<close>

theorem scan_aggregate_is_fold:
  "scan_completes entries ending \<longrightarrow>
     (\<exists>st. scan_loop env entries ending scan_init = Some st
        \<and> aggregate st =
            spec_aggregate (map (\<lambda>e. fnv1a64_file env (entry_path e)) (visited entries))
        \<and> (visited entries = [] \<longrightarrow>
             st = \<lparr>file_count = 0, total_bytes = 0, aggregate = 1469598103934665603\<rparr>))"
proof
  assume "scan_completes entries ending"
  from scan_loop_completes [OF this, of env scan_init]
  show "\<exists>st. scan_loop env entries ending scan_init = Some st
        \<and> aggregate st =
            spec_aggregate (map (\<lambda>e. fnv1a64_file env (entry_path e)) (visited entries))
        \<and> (visited entries = [] \<longrightarrow>
             st = \<lparr>file_count = 0, total_bytes = 0, aggregate = 1469598103934665603\<rparr>)"
    by (simp add: scan_init_def spec_aggregate_def)
qed

theorem scan_aggregate_is_fold_witness:
  "(\<exists>st. scan_loop abc_env abc_entries Reaches_end scan_init = Some st
      \<and> aggregate st = (1469598103934665603 XOR fnv1a64_file abc_env ''d/abc'') * 1099511628211)
   \<and> scan_loop abc_env [] Reaches_end scan_init
       = Some \<lparr>file_count = 0, total_bytes = 0, aggregate = 1469598103934665603\<rparr>"
proof -
  have "scan_completes [] Reaches_end"
    by (simp add: scan_completes_def)
  then show ?thesis
    using scan_aggregate_is_fold [of abc_entries Reaches_end abc_env]
      scan_aggregate_is_fold [of "[]" Reaches_end abc_env]
    by (auto simp: scan_completes_abc_entries visited_abc_entries visited_Nil spec_aggregate_def)
qed




text \<open>
  C10.  The two counters are unsigned 64-bit accumulators.  Whenever a scan runs to
  completion, the total byte count is the sum of the sizes of the visited files modulo
  \<open>2 ^ 64\<close> and the file count is their number modulo \<open>2 ^ 64\<close>; the process exits with
  code 0, writes nothing to the error stream, and the line it writes reports the decimal
  numerals of these two numbers.  These are the only runs that exit with code 0, and an
  overflow changes nothing else in the run: it is not detected.
\<close>

theorem scan_counters_wrap:
  \<open>(2 \<le> length argv \<and> fs_exists env (argv ! 1) = Some True
      \<and> fs_is_directory env (argv ! 1) = Some True
      \<and> fs_recursive_directory_iterator env (argv ! 1) = (entries, ending)
      \<and> scan_completes entries ending \<longrightarrow>
      (\<exists>st. scan_loop env entries ending scan_init = Some st
         \<and> unat (total_bytes st) = sum_list (visited_sizes entries) mod 2 ^ 64
         \<and> unat (file_count st) = length (visited entries) mod 2 ^ 64
         \<and> main env argv =
             Exited \<lparr>exit_code = 0,
               cout = ''{"root":"'' @ argv ! 1
                 @ ''","file_count":'' @ ostream_dec (length (visited entries) mod 2 ^ 64)
                 @ '',"total_bytes":'' @ ostream_dec (sum_list (visited_sizes entries) mod 2 ^ 64)
                 @ '',"aggregate_hash":"0x''
                 @ setw_setfill 16 CHR ''0'' (ostream_hex (unat (aggregate st)))
                 @ ''"}'' @ [newline],
               cerr = []\<rparr>))
   \<and> (main env argv = Exited r \<and> exit_code r = 0 \<longrightarrow>
        2 \<le> length argv \<and> fs_exists env (argv ! 1) = Some True
        \<and> fs_is_directory env (argv ! 1) = Some True
        \<and> scan_completes (fst (fs_recursive_directory_iterator env (argv ! 1)))
             (snd (fs_recursive_directory_iterator env (argv ! 1))))
   \<and> decimal_value (ostream_dec n) = n
   \<and> is_decimal (ostream_dec n)\<close>
proof (intro conjI impI)
  assume run: "2 \<le> length argv \<and> fs_exists env (argv ! 1) = Some True
      \<and> fs_is_directory env (argv ! 1) = Some True
      \<and> fs_recursive_directory_iterator env (argv ! 1) = (entries, ending)
      \<and> scan_completes entries ending"
  then obtain st where st: "scan_loop env entries ending scan_init = Some st"
    and count: "unat (file_count st) = length (visited entries) mod 2 ^ 64"
    and total: "unat (total_bytes st) = sum_list (visited_sizes entries) mod 2 ^ 64"
    using scan_loop_from_init [of entries ending env] by blast
  have "main env argv = Exited \<lparr>exit_code = 0, cout = render (argv ! 1) st @ [newline], cerr = []\<rparr>"
    using run main_valid_root [of argv env entries ending] by (simp add: st)
  then show \<open>\<exists>st. scan_loop env entries ending scan_init = Some st
         \<and> unat (total_bytes st) = sum_list (visited_sizes entries) mod 2 ^ 64
         \<and> unat (file_count st) = length (visited entries) mod 2 ^ 64
         \<and> main env argv =
             Exited \<lparr>exit_code = 0,
               cout = ''{"root":"'' @ argv ! 1
                 @ ''","file_count":'' @ ostream_dec (length (visited entries) mod 2 ^ 64)
                 @ '',"total_bytes":'' @ ostream_dec (sum_list (visited_sizes entries) mod 2 ^ 64)
                 @ '',"aggregate_hash":"0x''
                 @ setw_setfill 16 CHR ''0'' (ostream_hex (unat (aggregate st)))
                 @ ''"}'' @ [newline],
               cerr = []\<rparr>\<close>
    using st count total by (simp add: render_line)
next
  assume exited: "main env argv = Exited r \<and> exit_code r = 0"
  let ?walk = "fs_recursive_directory_iterator env (argv ! 1)"
  have all: "2 \<le> length argv \<and> fs_exists env (argv ! 1) = Some True
      \<and> fs_is_directory env (argv ! 1) = Some True
      \<and> scan_completes (fst ?walk) (snd ?walk)"
    using exited
    by (auto simp: main_def u8path_def Let_def simp del: One_nat_def
        split: if_splits option.splits dest: scan_loop_Some_completes)
  from all show "2 \<le> length argv" by simp
  from all show "fs_exists env (argv ! 1) = Some True" by simp
  from all show "fs_is_directory env (argv ! 1) = Some True" by simp
  from all show "scan_completes (fst ?walk) (snd ?walk)" by simp
next
  show "decimal_value (ostream_dec n) = n"
    by (rule decimal_value_ostream_dec)
next
  show "is_decimal (ostream_dec n)"
    by (rule is_decimal_ostream_dec)
qed

theorem scan_counters_wrap_witness:
  \<open>main huge_env [''otoshi_fs_scanner'', ''big''] =
     Exited \<lparr>exit_code = 0,
       cout = ''{"root":"big","file_count":3,"total_bytes":9223372036854775805,''
                @ ''"aggregate_hash":"0xb139efec8b41c82e"}'' @ [newline],
       cerr = []\<rparr>
   \<and> (27670116110564327421 :: nat) mod 2 ^ 64 = 9223372036854775805
   \<and> decimal_value ''9223372036854775805'' = 9223372036854775805\<close>
proof -
  have walk: "fs_recursive_directory_iterator huge_env ''big'' = (huge_entries, Reaches_end)"
    and root: "fs_exists huge_env ''big'' = Some True" "fs_is_directory huge_env ''big'' = Some True"
    by (simp_all add: huge_env_def)
  have dec: "ostream_dec 3 = ''3''" "ostream_dec 9223372036854775805 = ''9223372036854775805''"
    by (simp_all add: ostream_dec.simps digit_char_def)
  have hex: "ostream_hex 12770502017613416494 = ''b139efec8b41c82e''"
    by (simp add: ostream_hex.simps digit_char_def)
  show ?thesis
    using scan_counters_wrap
        [of "[''otoshi_fs_scanner'', ''big'']" huge_env huge_entries Reaches_end _ 9223372036854775805]
      walk root
    by (auto simp: scan_completes_huge_entries scan_loop_huge_entries visited_huge_entries
        visited_sizes_huge_entries setw_setfill_def dec hex)
qed

section \<open>Properties of main\<close>

text \<open>
  Where every status call answers, \<open>main\<close> returns: with code 1, the usage message on
  the error stream and nothing on the standard output when the positional argument is
  missing; with code 1, the message \<open>invalid root\<close> and nothing on the standard output
  when the root does not exist or is not a directory; with code 0 and the line of the scan
  when the root is a directory and the scan runs to completion.
\<close>

lemma main_exits_when_status_is_known:
  "(length argv < 2 \<longrightarrow>
      main env argv =
        Exited \<lparr>exit_code = 1, cout = [],
                cerr = ''usage: otoshi_fs_scanner <root-dir>'' @ [newline]\<rparr>)
   \<and> (2 \<le> length argv
        \<and> (fs_exists env (argv ! 1) = Some False
            \<or> fs_exists env (argv ! 1) = Some True \<and> fs_is_directory env (argv ! 1) = Some False) \<longrightarrow>
        main env argv =
          Exited \<lparr>exit_code = 1, cout = [], cerr = ''invalid root: '' @ argv ! 1 @ [newline]\<rparr>)
   \<and> (2 \<le> length argv \<and> fs_exists env (argv ! 1) = Some True
        \<and> fs_is_directory env (argv ! 1) = Some True
        \<and> fs_recursive_directory_iterator env (argv ! 1) = (entries, ending)
        \<and> scan_loop env entries ending scan_init = Some st \<longrightarrow>
        main env argv =
          Exited \<lparr>exit_code = 0, cout = render (argv ! 1) st @ [newline], cerr = []\<rparr>)"
  using main_valid_root [of argv env entries ending]
  by (simp add: main_too_few_arguments main_invalid_root)

lemma main_exits_on_abc_env:
  "main abc_env [''otoshi_fs_scanner''] =
     Exited \<lparr>exit_code = 1, cout = [], cerr = ''usage: otoshi_fs_scanner <root-dir>'' @ [newline]\<rparr>
   \<and> main abc_env [''otoshi_fs_scanner'', ''nowhere'']
       = Exited \<lparr>exit_code = 1, cout = [], cerr = ''invalid root: nowhere'' @ [newline]\<rparr>
   \<and> main abc_env [''otoshi_fs_scanner'', ''d/abc'']
       = Exited \<lparr>exit_code = 1, cout = [], cerr = ''invalid root: d/abc'' @ [newline]\<rparr>"
proof -
  have "fs_exists abc_env ''nowhere'' = Some False"
    and "fs_exists abc_env ''d/abc'' = Some True" and "fs_is_directory abc_env ''d/abc'' = Some False"
    by (simp_all add: abc_env_def)
  then show ?thesis
    using main_exits_when_status_is_known [of "[''otoshi_fs_scanner'']" abc_env]
      main_exits_when_status_is_known [of "[''otoshi_fs_scanner'', ''nowhere'']" abc_env]
      main_exits_when_status_is_known [of "[''otoshi_fs_scanner'', ''d/abc'']" abc_env]
    by simp
qed

text \<open>
  C9 is not what the code does for every invalid root.  \<^verbatim>\<open>fs::exists(root)\<close> is called
  in its throwing form and nothing catches the exception.  For a root that does not
  exist and whose status cannot be read, here a name of 300 bytes where names have at most
  255, the call throws, \<^verbatim>\<open>main\<close> does not return, and the process is terminated: it
  neither exits with code 1 nor writes the message \<open>invalid root\<close>.
\<close>

theorem main_aborts_on_status_error:
  "length long_name = 300
   \<and> fs_exists name_max_env long_name = None
   \<and> main name_max_env [''otoshi_fs_scanner'', long_name] = Aborted"
proof -
  have "fs_exists name_max_env long_name = None"
    by (simp add: name_max_env_def long_name_def)
  then show ?thesis
    using main_status_error [of "[''otoshi_fs_scanner'', long_name]" name_max_env]
    by (simp add: long_name_def)
qed

text \<open>So the run differs from the one that C9 states for a root that does not exist.\<close>

theorem main_aborts_on_status_error_witness:
  "main name_max_env [''otoshi_fs_scanner'', long_name]
     \<noteq> Exited \<lparr>exit_code = 1, cout = [], cerr = ''invalid root: '' @ long_name @ [newline]\<rparr>"
  using main_aborts_on_status_error by simp

text \<open>
  A valid root is no protection: in the directory \<open>links\<close> the call
  \<^verbatim>\<open>entry.is_regular_file()\<close> throws for the looping link, and the scan is aborted without
  a summary.
\<close>

lemma main_aborts_on_looping_link:
  "scan_loop loop_env (fst (fs_recursive_directory_iterator loop_env ''links''))
     (snd (fs_recursive_directory_iterator loop_env ''links'')) scan_init = None
   \<and> main loop_env [''otoshi_fs_scanner'', ''links''] = Aborted"
proof -
  have "fs_exists loop_env ''links'' = Some True" "fs_is_directory loop_env ''links'' = Some True"
    and walk: "fs_recursive_directory_iterator loop_env ''links'' =
      ([\<lparr>entry_path = ''links/self'', entry_is_regular_file = None, entry_file_size = None\<rparr>],
       Reaches_end)"
    by (simp_all add: loop_env_def)
  then show ?thesis
    using main_valid_root [of "[''otoshi_fs_scanner'', ''links'']" loop_env _ Reaches_end]
    by simp
qed

subsection \<open>The line written on success\<close>

lemma length_ostream_hex_le: "n < 16 ^ k \<Longrightarrow> 0 < k \<Longrightarrow> length (ostream_hex n) \<le> k"
proof (induction n arbitrary: k rule: ostream_hex.induct)
  case (1 n)
  show ?case
  proof (cases "n < 16")
    case True
    then show ?thesis
      using "1.prems" by (subst ostream_hex.simps) simp
  next
    case False
    obtain j where k: "k = Suc j"
      using "1.prems" by (cases k) auto
    have "0 < j"
      using False "1.prems" k by (cases j) auto
    moreover have "n div 16 < 16 ^ j"
      using "1.prems" k by (simp add: less_mult_imp_div_less mult.commute)
    ultimately have "length (ostream_hex (n div 16)) \<le> j"
      using "1.IH" [OF False] by simp
    then show ?thesis
      using False k by (subst ostream_hex.simps) simp
  qed
qed

lemma digit_char_hex: "d < 16 \<Longrightarrow> digit_char d \<in> set ''0123456789abcdef''"
  unfolding digit_char_def by (rule nth_mem) simp

lemma set_ostream_hex: "set (ostream_hex n) \<subseteq> set ''0123456789abcdef''"
proof (induction n rule: ostream_hex.induct)
  case (1 n)
  show ?case
  proof (cases "n < 16")
    case True
    then show ?thesis
      using digit_char_hex [of n] by (subst ostream_hex.simps) simp
  next
    case False
    then show ?thesis
      using "1.IH" [OF False] digit_char_hex [of "n mod 16"]
      by (subst ostream_hex.simps) simp
  qed
qed

text \<open>
  The \<open>aggregate_hash\<close> field: the 64-bit aggregate is written as exactly 16 lower-case
  hexadecimal digits, padded with zeros on the left.
\<close>

lemma aggregate_hash_16_hex_digits:
  "length (setw_setfill 16 CHR ''0'' (ostream_hex (unat (a :: u64)))) = 16
   \<and> set (setw_setfill 16 CHR ''0'' (ostream_hex (unat a))) \<subseteq> set ''0123456789abcdef''"
proof -
  have "unat a < 16 ^ 16"
    using unsigned_less [of a, where ?'a = nat] by simp
  then have "length (ostream_hex (unat a)) \<le> 16"
    by (rule length_ostream_hex_le) simp
  moreover have "set (ostream_hex (unat a)) \<subseteq> set ''0123456789abcdef''"
    by (rule set_ostream_hex)
  ultimately show ?thesis
    by (auto simp: setw_setfill_def)
qed

text \<open>
  C8 is not what the code does for every root.  The line is assembled by concatenation
  and the root is copied between the quotes as it is, without JSON escaping.  For the
  directory \<open>a"b\<close> the line is \<open>{"root":"a"b","file_count":0, ...}\<close>: the string that
  starts after \<open>"root":\<close> ends at the quote inside the name and is followed by \<open>b\<close>,
  so the line is not a JSON object whose \<open>root\<close> is the path as given.
\<close>

theorem main_root_not_escaped:
  \<open>main quote_env [''otoshi_fs_scanner'', ''a"b''] =
     Exited \<lparr>exit_code = 0,
       cout = ''{"root":"a"b","file_count":0,"total_bytes":0,"aggregate_hash":"0x14650fb0739d0383"}''
                @ [newline],
       cerr = []\<rparr>\<close>
proof -
  have \<open>fs_exists quote_env ''a"b'' = Some True\<close> and \<open>fs_is_directory quote_env ''a"b'' = Some True\<close>
    and \<open>fs_recursive_directory_iterator quote_env ''a"b'' = ([], Reaches_end)\<close>
    by (simp_all add: quote_env_def)
  moreover have "ostream_hex 1469598103934665603 = ''14650fb0739d0383''"
    by (simp add: ostream_hex.simps digit_char_def)
  moreover have "ostream_dec 0 = ''0''"
    by (simp add: ostream_dec.simps digit_char_def)
  ultimately show ?thesis
    using main_valid_root [of \<open>[''otoshi_fs_scanner'', ''a"b'']\<close> quote_env "[]" Reaches_end]
    by (simp add: render_line scan_init_def setw_setfill_def)
qed

text \<open>
  With the quote escaped by a backslash (the character \<open>0x5C\<close>), as a JSON string
  needs it, the line would be another one than the line written.
\<close>

theorem main_root_not_escaped_witness:
  \<open>main quote_env [''otoshi_fs_scanner'', ''a"b''] \<noteq>
     Exited \<lparr>exit_code = 0,
       cout = ''{"root":"a'' @ [CHR 0x5C] @ ''"b","file_count":0,"total_bytes":0,''
                @ ''"aggregate_hash":"0x14650fb0739d0383"}'' @ [newline],
       cerr = []\<rparr>\<close>
  using main_root_not_escaped by simp

end
